theory Spec2Isabelle
  imports Main "HOL-Library.AList"
begin

section \<open>Python values\<close>

text \<open>
  A Python \<open>str\<close> is a sequence of Unicode code points; \<open>len\<close> counts code points
  and a slice cuts between them. A string is therefore a list of code points, each a
  natural number. String literals of the source are written \<open>py ''...''\<close>.
\<close>

type_synonym pystr = "nat list"

abbreviation py :: "string \<Rightarrow> pystr" where
  "py s \<equiv> map of_char s"

text \<open>
  \<open>str.strip()\<close> without argument removes the characters for which \<open>str.isspace\<close>
  holds: the ASCII controls 9 to 13 and 28 to 31, the space, NEL (133), the no-break
  space (160) and the Unicode space separators and line and paragraph separators.
\<close>

definition py_isspace :: "nat \<Rightarrow> bool" where
  "py_isspace c \<longleftrightarrow>
     c \<in> {9, 10, 11, 12, 13, 28, 29, 30, 31, 32, 133, 160, 5760,
          8232, 8233, 8239, 8287, 12288} \<or> (8192 \<le> c \<and> c \<le> 8202)"

definition py_strip :: "pystr \<Rightarrow> pystr" where
  "py_strip s = rev (dropWhile py_isspace (rev (dropWhile py_isspace s)))"

text \<open>
  \<open>s.split(sep)\<close> for a separator of one character: the pieces between the
  occurrences of the separator, empty pieces included, so the result is never empty
  (\<open>''''.split(sep)\<close> is the list holding one empty string).
\<close>

fun py_split :: "nat \<Rightarrow> pystr \<Rightarrow> pystr list" where
  "py_split sep [] = [[]]"
| "py_split sep (c # cs) =
     (if c = sep then [] # py_split sep cs
      else (case py_split sep cs of
              [] \<Rightarrow> [[c]]
            | p # ps \<Rightarrow> (c # p) # ps))"

text \<open>\<open>str(i)\<close> of a non-negative integer: its decimal digits, without leading zeros.\<close>

fun str_nat :: "nat \<Rightarrow> pystr" where
  "str_nat n = (if n < 10 then [48 + n] else str_nat (n div 10) @ [48 + n mod 10])"

declare str_nat.simps [simp del]

text \<open>
  Metadata values. Caller metadata holds strings (the request layer stores a title);
  the store adds the parent document's identifier, a string, and the chunk's position,
  an integer.
\<close>

datatype pyval = VStr pystr | VInt int

type_synonym pydict = "pystr \<rightharpoonup> pyval"

datatype py_error = KeyError

section \<open>The chunker: \<open>VectorStore._chunk_text\<close>\<close>

text \<open>
  The loop over the paragraphs, with the state it mutates: the list \<open>chunks\<close> and the
  running \<open>current_chunk\<close>. A string is true when it is not empty. The budget test
  adds the lengths of the running chunk and of the paragraph.
\<close>

fun chunk_loop :: "int \<Rightarrow> pystr list \<Rightarrow> pystr list \<times> pystr \<Rightarrow> pystr list \<times> pystr" where
  "chunk_loop max_chunk_size [] (chunks, current_chunk) = (chunks, current_chunk)"
| "chunk_loop max_chunk_size (paragraph # rest) (chunks, current_chunk) =
     (if int (length current_chunk) + int (length paragraph) > max_chunk_size
         \<and> current_chunk \<noteq> []
      then chunk_loop max_chunk_size rest (chunks @ [py_strip current_chunk], paragraph)
      else if current_chunk \<noteq> []
      then chunk_loop max_chunk_size rest (chunks, current_chunk @ py '' '' @ paragraph)
      else chunk_loop max_chunk_size rest (chunks, paragraph))"

definition paragraphs_of :: "pystr \<Rightarrow> pystr list" where
  "paragraphs_of text = filter (\<lambda>p. py_strip p \<noteq> []) (py_split 10 text)"

definition chunk_text :: "pystr \<Rightarrow> int \<Rightarrow> pystr list" where
  "chunk_text text max_chunk_size =
     (case chunk_loop max_chunk_size (paragraphs_of text) ([], []) of
        (chunks, current_chunk) \<Rightarrow>
          if current_chunk \<noteq> [] then chunks @ [py_strip current_chunk] else chunks)"

definition default_max_chunk_size :: int where
  "default_max_chunk_size = 512"

section \<open>The chunk store\<close>

text \<open>
  The collection of the external vector engine, as far as this code uses it: records
  of an identifier, a document text and a metadata dictionary, kept in the order they
  were added. Embeddings are computed and used by the engine only. Every record of the
  model carries a metadata dictionary, as every record this code writes does.

  \<open>collection.add\<close> with one identifier stores the record; the engine ignores an
  identifier that the collection already holds. \<open>collection.get()\<close> returns every
  record. \<open>collection.delete(ids)\<close> removes the records with these identifiers.
\<close>

record chunk_record =
  rec_id :: pystr
  rec_document :: pystr
  rec_metadata :: pydict

type_synonym collection = "chunk_record list"

definition collection_add :: "collection \<Rightarrow> pystr \<Rightarrow> pystr \<Rightarrow> pydict \<Rightarrow> collection" where
  "collection_add st i document metadata =
     (if i \<in> rec_id ` set st then st
      else st @ [\<lparr>rec_id = i, rec_document = document, rec_metadata = metadata\<rparr>])"

definition collection_get :: "collection \<Rightarrow> chunk_record list" where
  "collection_get st = st"

definition collection_delete :: "collection \<Rightarrow> pystr list \<Rightarrow> collection" where
  "collection_delete st ids = filter (\<lambda>r. rec_id r \<notin> set ids) st"

section \<open>The document store\<close>

subsection \<open>\<open>VectorStore.add_document\<close>\<close>

definition chunk_id :: "pystr \<Rightarrow> nat \<Rightarrow> pystr" where
  "chunk_id doc_id i = doc_id @ py ''_'' @ str_nat i"

definition chunk_metadata :: "pydict \<Rightarrow> pystr \<Rightarrow> nat \<Rightarrow> pydict" where
  "chunk_metadata metadata doc_id i =
     metadata(py ''doc_id'' \<mapsto> VStr doc_id, py ''chunk_index'' \<mapsto> VInt (int i))"

text \<open>The loop over \<open>enumerate(chunks)\<close>: one \<open>collection.add\<close> for each chunk.\<close>

fun add_chunks :: "collection \<Rightarrow> pystr \<Rightarrow> pydict \<Rightarrow> nat \<Rightarrow> pystr list \<Rightarrow> collection" where
  "add_chunks st doc_id metadata i [] = st"
| "add_chunks st doc_id metadata i (chunk # rest) =
     add_chunks (collection_add st (chunk_id doc_id i) chunk (chunk_metadata metadata doc_id i))
       doc_id metadata (Suc i) rest"

text \<open>
  \<open>doc_id\<close> is the string \<open>uuid.uuid4()\<close> returned; the function returns it together
  with the collection after the writes. A missing or empty \<open>metadata\<close> is the empty
  dictionary.
\<close>

definition caller_metadata :: "pydict option \<Rightarrow> pydict" where
  "caller_metadata metadata = (case metadata of None \<Rightarrow> Map.empty | Some m \<Rightarrow> m)"

definition add_document :: "collection \<Rightarrow> pystr \<Rightarrow> pystr \<Rightarrow> pydict option \<Rightarrow> pystr \<times> collection" where
  "add_document st doc_id text metadata =
     (let metadata' = caller_metadata metadata;
          chunks = chunk_text text default_max_chunk_size
      in (doc_id, add_chunks st doc_id metadata' 0 chunks))"

subsection \<open>\<open>VectorStore.query\<close>\<close>

text \<open>
  The nearest-neighbour search belongs to the engine and is a parameter here; the
  method hands it the query text in a list of one element and returns its result.
\<close>

definition query :: "(collection \<Rightarrow> pystr list \<Rightarrow> int \<Rightarrow> 'r) \<Rightarrow> collection \<Rightarrow> pystr \<Rightarrow> int \<Rightarrow> 'r" where
  "query collection_query st query_text n_results = collection_query st [query_text] n_results"

subsection \<open>\<open>VectorStore.get_all_documents\<close>\<close>

record doc_summary =
  sum_id :: pyval
  sum_metadata :: pydict
  chunk_count :: nat
  sample_text :: pystr

text \<open>
  \<open>doc_map\<close> is a dictionary from the value under \<open>doc_id\<close> to the summary; a
  Python dictionary keeps its keys in the order of their first insertion, so it is an
  association list here. The subscript \<open>["doc_id"]\<close> raises \<open>KeyError\<close> on a
  dictionary without that key.
\<close>

definition new_summary :: "pyval \<Rightarrow> chunk_record \<Rightarrow> doc_summary" where
  "new_summary base_id r =
     \<lparr>sum_id = base_id,
      sum_metadata = (\<lambda>k. if k = py ''doc_id'' \<or> k = py ''chunk_index'' then None
                           else rec_metadata r k),
      chunk_count = 0,
      sample_text = take 100 (rec_document r) @ py ''...''\<rparr>"

fun group_loop :: "chunk_record list \<Rightarrow> (pyval \<times> doc_summary) list \<Rightarrow> py_error + (pyval \<times> doc_summary) list" where
  "group_loop [] doc_map = Inr doc_map"
| "group_loop (r # rest) doc_map =
     (case rec_metadata r (py ''doc_id'') of
        None \<Rightarrow> Inl KeyError
      | Some base_id \<Rightarrow>
          (let doc_map' = (if map_of doc_map base_id = None
                           then AList.update base_id (new_summary base_id r) doc_map
                           else doc_map)
           in group_loop rest
                (AList.map_entry base_id (\<lambda>s. s\<lparr>chunk_count := chunk_count s + 1\<rparr>) doc_map')))"

definition get_all_documents :: "collection \<Rightarrow> py_error + doc_summary list" where
  "get_all_documents st =
     (case group_loop (collection_get st) [] of
        Inl e \<Rightarrow> Inl e
      | Inr doc_map \<Rightarrow> Inr (map snd doc_map))"

subsection \<open>\<open>VectorStore.delete_document\<close>\<close>

text \<open>
  The scan uses \<open>metadata.get("doc_id")\<close>, which gives \<open>None\<close> on a dictionary
  without the key and never raises; \<open>None\<close> equals no string.
\<close>

fun matching_ids :: "chunk_record list \<Rightarrow> pystr \<Rightarrow> pystr list" where
  "matching_ids [] doc_id = []"
| "matching_ids (r # rest) doc_id =
     (if rec_metadata r (py ''doc_id'') = Some (VStr doc_id)
      then rec_id r # matching_ids rest doc_id
      else matching_ids rest doc_id)"

definition delete_document :: "collection \<Rightarrow> pystr \<Rightarrow> collection" where
  "delete_document st doc_id =
     (let to_delete = matching_ids (collection_get st) doc_id
      in if to_delete \<noteq> [] then collection_delete st to_delete else st)"

section \<open>Specification-level notions\<close>

subsection \<open>A reference chunker\<close>

text \<open>
  The chunker as the specification describes it, to be compared with \<open>chunk_text\<close>:
  split the text on newline characters, discard the segments that consist only of
  whitespace, accumulate the remaining paragraphs greedily in their order, and emit the
  last running chunk, trimmed, at the end; a text without a non-blank line gives no
  chunk. The running chunk is a paragraph sequence that has started, so it needs no
  emptiness test. The test that decides whether a paragraph still joins the running
  chunk is the parameter \<open>fits\<close>.
\<close>

definition is_blank :: "pystr \<Rightarrow> bool" where
  "is_blank p = list_all py_isspace p"

fun accumulate_ref :: "(pystr \<Rightarrow> pystr \<Rightarrow> bool) \<Rightarrow> pystr \<Rightarrow> pystr list \<Rightarrow> pystr list" where
  "accumulate_ref fits running [] = [py_strip running]"
| "accumulate_ref fits running (p # ps) =
     (if fits running p then accumulate_ref fits (running @ py '' '' @ p) ps
      else py_strip running # accumulate_ref fits p ps)"

definition chunk_reference :: "(pystr \<Rightarrow> pystr \<Rightarrow> bool) \<Rightarrow> pystr \<Rightarrow> pystr list" where
  "chunk_reference fits text =
     (case filter (\<lambda>p. \<not> is_blank p) (py_split 10 text) of
        [] \<Rightarrow> []
      | p # ps \<Rightarrow> accumulate_ref fits p ps)"

text \<open>
  The test as the specification words it: appending the paragraph, joined with a single
  space, keeps the chunk's length within \<open>max_chunk_size\<close>.
\<close>

definition joined_within :: "int \<Rightarrow> pystr \<Rightarrow> pystr \<Rightarrow> bool" where
  "joined_within max_chunk_size running p \<longleftrightarrow>
     int (length (running @ py '' '' @ p)) \<le> max_chunk_size"

subsection \<open>Generated identifiers and reachable stores\<close>

text \<open>
  \<open>uuid.uuid4()\<close> gives an identifier that is in use nowhere: here, one that no
  record of the collection carries under \<open>doc_id\<close>. The stores that sequences of
  \<open>add_document\<close> and \<open>delete_document\<close> build from the empty collection are the
  reachable ones.
\<close>

definition unused_doc_id :: "collection \<Rightarrow> pystr \<Rightarrow> bool" where
  "unused_doc_id st doc_id =
     list_all (\<lambda>r. rec_metadata r (py ''doc_id'') \<noteq> Some (VStr doc_id)) st"

inductive reachable :: "collection \<Rightarrow> bool" where
  reachable_empty: "reachable []"
| reachable_add:
    "reachable st \<Longrightarrow> unused_doc_id st doc_id \<Longrightarrow>
     reachable (snd (add_document st doc_id text metadata))"
| reachable_delete:
    "reachable st \<Longrightarrow> reachable (delete_document st doc_id)"

text \<open>
  Chunk identity is derived: identifiers are unique in the collection, and every record
  names its document and its position, from which its identifier is built.
\<close>

definition derived_id :: "chunk_record \<Rightarrow> bool" where
  "derived_id r =
     (case rec_metadata r (py ''doc_id'') of
        Some (VStr d) \<Rightarrow>
          (case rec_metadata r (py ''chunk_index'') of
             Some (VInt i) \<Rightarrow> 0 \<le> i \<and> rec_id r = chunk_id d (nat i)
           | _ \<Rightarrow> False)
      | _ \<Rightarrow> False)"

definition derived_ids :: "collection \<Rightarrow> bool" where
  "derived_ids st \<longleftrightarrow> distinct (map rec_id st) \<and> list_all derived_id st"

text \<open>The chunk indices that the records of a document carry, in the store's order.\<close>

definition indices_of :: "collection \<Rightarrow> pystr \<Rightarrow> pyval option list" where
  "indices_of st doc_id =
     map (\<lambda>r. rec_metadata r (py ''chunk_index''))
       (filter (\<lambda>r. rec_metadata r (py ''doc_id'') = Some (VStr doc_id)) st)"

section \<open>Strings\<close>

lemma py_isspace_simps [simp]:
  "py_isspace 32" "py_isspace 10" "\<not> py_isspace 46"
  by (simp_all add: py_isspace_def)

lemma py_split_not_Nil [simp]: "py_split sep s \<noteq> []"
  by (induction s) (auto split: list.splits)

lemma py_strip_Nil_iff: "py_strip s = [] \<longleftrightarrow> list_all py_isspace s"
proof
  assume "py_strip s = []"
  then have all: "\<forall>x \<in> set (dropWhile py_isspace s). py_isspace x"
    by (simp add: py_strip_def dropWhile_eq_Nil_conv)
  have "dropWhile py_isspace s = []"
  proof (cases "dropWhile py_isspace s")
    case Nil then show ?thesis .
  next
    case (Cons x xs)
    then have "\<not> py_isspace x" by (metis hd_dropWhile list.distinct(1) list.sel(1))
    with Cons all show ?thesis by simp
  qed
  then show "list_all py_isspace s"
    by (simp add: dropWhile_eq_Nil_conv list_all_iff)
next
  assume "list_all py_isspace s"
  then show "py_strip s = []"
    by (auto simp: py_strip_def list_all_iff dest: set_dropWhileD)
qed

lemma py_strip_nonempty_arg: "py_strip s \<noteq> [] \<Longrightarrow> s \<noteq> []"
  by (auto simp: py_strip_def)

lemma length_py_strip: "length (py_strip s) \<le> length s"
proof -
  have "length (dropWhile py_isspace (rev (dropWhile py_isspace s))) \<le> length (rev (dropWhile py_isspace s))"
    by (rule length_dropWhile_le)
  also have "\<dots> \<le> length s" by (simp add: length_dropWhile_le)
  finally show ?thesis by (simp add: py_strip_def)
qed

lemma paragraphs_of_eq: "paragraphs_of text = filter (\<lambda>p. \<not> is_blank p) (py_split 10 text)"
  by (simp add: paragraphs_of_def py_strip_Nil_iff is_blank_def)

lemma paragraphs_nonempty: "p \<in> set (paragraphs_of text) \<Longrightarrow> p \<noteq> []"
  by (auto simp: paragraphs_of_def dest: py_strip_nonempty_arg)

lemma chunk_loop_accumulate:
  assumes "running \<noteq> []" "\<forall>p \<in> set ps. p \<noteq> []"
  shows "\<exists>chunks' cur'. chunk_loop m ps (chunks, running) = (chunks', cur') \<and> cur' \<noteq> []
           \<and> chunks' @ [py_strip cur'] = chunks @ accumulate_ref
                (\<lambda>running p. int (length running) + int (length p) \<le> m) running ps"
  using assms
proof (induction ps arbitrary: chunks running)
  case Nil
  then show ?case by simp
next
  case (Cons p ps)
  show ?case
  proof (cases "int (length running) + int (length p) \<le> m")
    case True
    have ne: "running @ py '' '' @ p \<noteq> []" using Cons.prems by simp
    from Cons.IH [OF ne, of chunks] Cons.prems True show ?thesis
      by simp
  next
    case False
    have ne: "p \<noteq> []" using Cons.prems by simp
    from Cons.IH [OF ne, of "chunks @ [py_strip running]"] Cons.prems False show ?thesis
      by simp
  qed
qed

text \<open>
  What the loop does guarantee: a chunk is a trimmed paragraph, or it is at most one
  character longer than \<open>max_chunk_size\<close>.
\<close>

lemma chunk_loop_bound:
  assumes "chunk_loop m ps (chunks, cur) = (chunks', cur')"
    and "\<forall>c \<in> set chunks. c \<in> py_strip ` A \<or> int (length c) \<le> m + 1"
    and "cur = [] \<or> cur \<in> A \<or> int (length cur) \<le> m + 1"
    and "set ps \<subseteq> A"
  shows "(\<forall>c \<in> set chunks'. c \<in> py_strip ` A \<or> int (length c) \<le> m + 1)
       \<and> (cur' = [] \<or> cur' \<in> A \<or> int (length cur') \<le> m + 1)"
  using assms
proof (induction ps arbitrary: chunks cur)
  case Nil
  then show ?case by simp
next
  case (Cons p ps)
  have p: "p \<in> A" and ps: "set ps \<subseteq> A" using Cons.prems(4) by auto
  show ?case
  proof (cases "int (length cur) + int (length p) > m \<and> cur \<noteq> []")
    case True
    have emitted: "py_strip cur \<in> py_strip ` A \<or> int (length (py_strip cur)) \<le> m + 1"
      using Cons.prems(3) True length_py_strip [of cur] by auto
    have run: "chunk_loop m ps (chunks @ [py_strip cur], p) = (chunks', cur')"
      using Cons.prems(1) True by simp
    show ?thesis
      by (rule Cons.IH [OF run _ _ ps]) (use Cons.prems(2) emitted p in auto)
  next
    case False
    show ?thesis
    proof (cases "cur = []")
      case True
      with Cons.prems(1) have run: "chunk_loop m ps (chunks, p) = (chunks', cur')" by simp
      show ?thesis
        by (rule Cons.IH [OF run Cons.prems(2) _ ps]) (use p in simp)
    next
      case nonempty: False
      with False Cons.prems(1)
      have run: "chunk_loop m ps (chunks, cur @ py '' '' @ p) = (chunks', cur')" by simp
      have "int (length (cur @ py '' '' @ p)) \<le> m + 1" using False nonempty by simp
      then show ?thesis
        by (intro Cons.IH [OF run Cons.prems(2) _ ps]) simp
    qed
  qed
qed

lemma chunk_text_bound:
  assumes "c \<in> set (chunk_text t m)"
  shows "c \<in> py_strip ` set (paragraphs_of t) \<or> int (length c) \<le> m + 1"
proof -
  obtain chunks cur where loop: "chunk_loop m (paragraphs_of t) ([], []) = (chunks, cur)"
    by (cases "chunk_loop m (paragraphs_of t) ([], [])")
  from chunk_loop_bound [OF loop, of "set (paragraphs_of t)"]
  have chunks: "\<forall>c \<in> set chunks. c \<in> py_strip ` set (paragraphs_of t) \<or> int (length c) \<le> m + 1"
    and cur: "cur = [] \<or> cur \<in> set (paragraphs_of t) \<or> int (length cur) \<le> m + 1"
    by simp_all
  from assms loop have "c \<in> set chunks \<or> (cur \<noteq> [] \<and> c = py_strip cur)"
    by (auto simp: chunk_text_def split: if_splits)
  then show ?thesis
  proof
    assume "c \<in> set chunks" with chunks show ?thesis by blast
  next
    assume "cur \<noteq> [] \<and> c = py_strip cur"
    with cur length_py_strip [of cur] show ?thesis by auto
  qed
qed

text \<open>
  The loop against the reference chunker: run with the loop's own test, the sum of the
  two lengths without the joining space, the reference gives the chunks of the code for
  every text and size. Splitting, discarding, order and the last chunk agree; the test
  is where the two part.
\<close>

lemma chunk_text_structure:
  "chunk_text text m =
     chunk_reference (\<lambda>running p. int (length running) + int (length p) \<le> m) text"
proof (cases "paragraphs_of text")
  case Nil
  then show ?thesis
    by (simp add: chunk_text_def chunk_reference_def paragraphs_of_eq [symmetric])
next
  case (Cons p ps)
  have nonempty: "p \<noteq> []" "\<forall>q \<in> set ps. q \<noteq> []"
    using paragraphs_nonempty [of _ "text"] Cons by auto
  obtain chunks' cur' where loop: "chunk_loop m ps ([], p) = (chunks', cur')"
      and cur: "cur' \<noteq> []"
      and out: "chunks' @ [py_strip cur'] = [] @ accumulate_ref
                  (\<lambda>running p. int (length running) + int (length p) \<le> m) p ps"
    using chunk_loop_accumulate [OF nonempty, of m "[]"] by blast
  have "chunk_loop m (p # ps) ([], []) = chunk_loop m ps ([], p)"
    by simp
  with loop cur out Cons show ?thesis
    by (simp add: chunk_text_def chunk_reference_def paragraphs_of_eq [symmetric])
qed

text \<open>
  Two paragraphs without whitespace whose lengths add up to the size exactly: the loop
  joins them into one chunk, one character over the size, and the reference with the
  specification's test keeps them apart.
\<close>

lemma py_split_no_sep: "sep \<notin> set s \<Longrightarrow> py_split sep s = [s]"
  by (induction s) auto

lemma py_split_first: "sep \<notin> set p \<Longrightarrow> py_split sep (p @ sep # r) = p # py_split sep r"
proof (induction p)
  case Nil
  then show ?case by simp
next
  case (Cons c p)
  then show ?case by (cases "py_split sep r") auto
qed

lemma py_strip_id:
  assumes "s \<noteq> []" "\<not> py_isspace (hd s)" "\<not> py_isspace (last s)"
  shows "py_strip s = s"
proof -
  have "dropWhile py_isspace s = s" using assms(1,2) by (cases s) auto
  moreover have "dropWhile py_isspace (rev s) = rev s"
    using assms(1,3) by (cases "rev s") (auto simp: last_rev [symmetric] simp del: last_rev)
  ultimately show ?thesis by (simp add: py_strip_def)
qed

lemma two_paragraphs_joined:
  assumes p: "p \<noteq> []" "\<forall>c \<in> set p. \<not> py_isspace c"
    and q: "q \<noteq> []" "\<forall>c \<in> set q. \<not> py_isspace c"
    and len: "int (length p) + int (length q) = m"
  shows "chunk_text (p @ 10 # q) m = [p @ py '' '' @ q]
       \<and> chunk_reference (joined_within m) (p @ 10 # q) = [p, q]"
proof -
  have nl: "10 \<notin> set p" "10 \<notin> set q" using p(2) q(2) by auto
  then have split: "py_split 10 (p @ 10 # q) = [p, q]"
    by (simp add: py_split_first py_split_no_sep)
  have strip: "py_strip p = p" "py_strip q = q"
    using p q by (simp_all add: py_strip_id)
  have joined: "py_strip (p @ py '' '' @ q) = p @ py '' '' @ q"
    using p q by (intro py_strip_id) simp_all
  have blank: "\<not> is_blank p" "\<not> is_blank q"
    using p q by (auto simp: is_blank_def list_all_iff)
  have "paragraphs_of (p @ 10 # q) = [p, q]"
    using p(1) q(1) by (simp add: paragraphs_of_def split strip)
  then have code: "chunk_text (p @ 10 # q) m = [p @ py '' '' @ q]"
    using p(1) len joined by (simp add: chunk_text_def)
  have "chunk_reference (joined_within m) (p @ 10 # q) = [p, q]"
    using len by (simp add: chunk_reference_def split blank joined_within_def strip)
  with code show ?thesis by simp
qed

section \<open>Claims on the chunker\<close>

text \<open>
  C1. The specification's scenario: the text of the three paragraphs
  \<open>Para one.\<close>, \<open>Para two.\<close> and \<open>Para three.\<close>, the second and third
  separated by an empty line, chunked with \<open>max_chunk_size = 20\<close>. The claim is that
  each paragraph becomes a chunk of its own. It does not: the first two paragraphs have
  9 characters each, 18 together, which is within the budget of 20, so they are joined.
\<close>

theorem chunk_scenario_not_three_chunks:
  "chunk_text (py ''Para one.\<newline>Para two.\<newline>\<newline>Para three.'') 20
     \<noteq> [py ''Para one.'', py ''Para two.'', py ''Para three.'']"
  by (simp add: chunk_text_def paragraphs_of_def py_strip_def py_isspace_def)

text \<open>
  C1, as the code has it: the scenario gives two chunks, the first two paragraphs
  joined by a space and the third paragraph alone.
\<close>

theorem chunk_scenario_two_chunks:
  "chunk_text (py ''Para one.\<newline>Para two.\<newline>\<newline>Para three.'') 20
     = [py ''Para one. Para two.'', py ''Para three.'']"
  by (simp add: chunk_text_def paragraphs_of_def py_strip_def py_isspace_def)

text \<open>
  C2. No chunk other than a single over-long paragraph is longer than
  \<open>max_chunk_size\<close>, a paragraph joining the running chunk only when the joined
  chunk stays within the size. The loop's test leaves the joining space out: two
  paragraphs of 4 characters pass a budget of 8 and give one chunk of 9 characters,
  made of two paragraphs, each within the size. With the test as the specification
  words it, the reference chunker keeps the two paragraphs apart.
\<close>

theorem chunk_exceeds_max_chunk_size:
  "chunk_text (py ''aaaa\<newline>bbbb'') 8 = [py ''aaaa bbbb'']
   \<and> paragraphs_of (py ''aaaa\<newline>bbbb'') = [py ''aaaa'', py ''bbbb'']
   \<and> int (length (py ''aaaa bbbb'')) > 8
   \<and> chunk_reference (joined_within 8) (py ''aaaa\<newline>bbbb'') = [py ''aaaa'', py ''bbbb'']"
  by (simp add: chunk_text_def paragraphs_of_def py_strip_def py_isspace_def
      chunk_reference_def joined_within_def is_blank_def)

text \<open>
  C3. The chunker equals the reference definition for every text: split on newlines,
  discard the segments of whitespace only, accumulate the remaining paragraphs greedily
  in their order, emit the last running chunk trimmed, and give the empty sequence for
  a text without a non-blank line. Greedy accumulation in the specification appends a
  paragraph when the chunk joined with a space stays within the size
  (\<open>joined_within\<close>). The code differs from that reference: at size 8 on two
  paragraphs of 4 characters, and at the default size of 512 on two paragraphs of 256
  characters, the code gives one joined chunk where the reference gives two.
\<close>

theorem chunk_text_differs_from_reference:
  "chunk_text (py ''aaaa\<newline>bbbb'') 8 = [py ''aaaa bbbb'']
   \<and> chunk_reference (joined_within 8) (py ''aaaa\<newline>bbbb'') = [py ''aaaa'', py ''bbbb'']
   \<and> chunk_text (replicate 256 97 @ 10 # replicate 256 98) default_max_chunk_size
       = [replicate 256 97 @ py '' '' @ replicate 256 98]
   \<and> chunk_reference (joined_within default_max_chunk_size) (replicate 256 97 @ 10 # replicate 256 98)
       = [replicate 256 97, replicate 256 98]"
proof -
  have small: "chunk_text (py ''aaaa\<newline>bbbb'') 8 = [py ''aaaa bbbb'']
     \<and> chunk_reference (joined_within 8) (py ''aaaa\<newline>bbbb'') = [py ''aaaa'', py ''bbbb'']"
    by (simp add: chunk_text_def paragraphs_of_def py_strip_def py_isspace_def
      chunk_reference_def joined_within_def is_blank_def)
  have "chunk_text (replicate 256 97 @ 10 # replicate 256 98) default_max_chunk_size
          = [replicate 256 97 @ py '' '' @ replicate 256 98]
      \<and> chunk_reference (joined_within default_max_chunk_size)
            (replicate 256 97 @ 10 # replicate 256 98) = [replicate 256 97, replicate 256 98]"
    by (rule two_paragraphs_joined) (auto simp: py_isspace_def default_max_chunk_size_def)
  with small show ?thesis by (intro conjI) simp_all
qed

section \<open>Identifiers\<close>

lemma str_nat_not_Nil [simp]: "str_nat n \<noteq> []"
  by (subst str_nat.simps) simp

lemma str_nat_digits: "c \<in> set (str_nat n) \<Longrightarrow> 48 \<le> c \<and> c \<le> 57"
proof (induction n rule: str_nat.induct)
  case (1 n)
  show ?case
  proof (cases "n < 10")
    case True
    with "1.prems" show ?thesis by (subst (asm) str_nat.simps) simp
  next
    case False
    from "1.prems" have "c \<in> set (str_nat (n div 10)) \<or> c = 48 + n mod 10"
      using False by (subst (asm) str_nat.simps) auto
    with "1.IH" False show ?thesis by auto
  qed
qed

lemma str_nat_inj: "str_nat m = str_nat n \<Longrightarrow> m = n"
proof (induction m arbitrary: n rule: str_nat.induct)
  case (1 m)
  have m: "str_nat m = (if m < 10 then [48 + m] else str_nat (m div 10) @ [48 + m mod 10])"
    by (rule str_nat.simps)
  have n: "str_nat n = (if n < 10 then [48 + n] else str_nat (n div 10) @ [48 + n mod 10])"
    by (rule str_nat.simps)
  show ?case
  proof (cases "m < 10")
    case True
    show ?thesis
    proof (cases "n < 10")
      case n10: True
      with True "1.prems" m n show ?thesis by simp
    next
      case False
      with True "1.prems" m n have "[48 + m] = str_nat (n div 10) @ [48 + n mod 10]" by simp
      then have "str_nat (n div 10) = []" by simp
      then show ?thesis by simp
    qed
  next
    case False
    show ?thesis
    proof (cases "n < 10")
      case True
      with False "1.prems" m n have "str_nat (m div 10) @ [48 + m mod 10] = [48 + n]" by simp
      then have "str_nat (m div 10) = []" by simp
      then show ?thesis by simp
    next
      case n10: False
      from False n10 "1.prems" m n
      have "str_nat (m div 10) = str_nat (n div 10)" and md: "m mod 10 = n mod 10" by auto
      with "1.IH" [OF False] have "m div 10 = n div 10" by blast
      with md show ?thesis by (metis div_mult_mod_eq)
    qed
  qed
qed

lemma last_separator_unique:
  assumes "a @ x # b = a' @ x # b'" "x \<notin> set b" "x \<notin> set b'"
  shows "a = a' \<and> b = b'"
proof -
  have "takeWhile (\<lambda>y. y \<noteq> x) (rev b @ x # rev a) = rev b"
    using assms(2) by (subst takeWhile_append2) auto
  moreover have "takeWhile (\<lambda>y. y \<noteq> x) (rev b' @ x # rev a') = rev b'"
    using assms(3) by (subst takeWhile_append2) auto
  moreover have "rev b @ x # rev a = rev b' @ x # rev a'"
    using arg_cong [OF assms(1), of rev] by simp
  ultimately have "rev b = rev b'" by simp
  then have "b = b'" by simp
  with assms(1) show ?thesis by simp
qed

lemma chunk_id_inj: "chunk_id d i = chunk_id d' j \<Longrightarrow> d = d' \<and> i = j"
proof -
  assume eq: "chunk_id d i = chunk_id d' j"
  have "95 \<notin> set (str_nat i)" "95 \<notin> set (str_nat j)"
    using str_nat_digits [of 95] by auto
  with eq have "d = d' \<and> str_nat i = str_nat j"
    using last_separator_unique [of d 95 "str_nat i" d' "str_nat j"]
    by (simp add: chunk_id_def)
  then show ?thesis by (auto dest: str_nat_inj)
qed

section \<open>Writing and deleting records\<close>

lemma add_chunks_fresh:
  "\<forall>k. i \<le> k \<and> k < i + length cs \<longrightarrow> chunk_id d k \<notin> rec_id ` set st \<Longrightarrow>
   add_chunks st d md i cs =
     st @ map (\<lambda>(k, c). \<lparr>rec_id = chunk_id d k, rec_document = c,
                         rec_metadata = chunk_metadata md d k\<rparr>) (enumerate i cs)"
proof (induction cs arbitrary: st i)
  case Nil
  then show ?case by simp
next
  case (Cons c cs)
  let ?r = "\<lparr>rec_id = chunk_id d i, rec_document = c, rec_metadata = chunk_metadata md d i\<rparr>"
  have "chunk_id d i \<notin> rec_id ` set st" using Cons.prems by simp
  then have add: "collection_add st (chunk_id d i) c (chunk_metadata md d i) = st @ [?r]"
    by (simp add: collection_add_def)
  have "\<forall>k. Suc i \<le> k \<and> k < Suc i + length cs \<longrightarrow> chunk_id d k \<notin> rec_id ` set (st @ [?r])"
  proof (intro allI impI)
    fix k assume k: "Suc i \<le> k \<and> k < Suc i + length cs"
    then have "chunk_id d k \<notin> rec_id ` set st" using Cons.prems by simp
    moreover have "chunk_id d k \<noteq> chunk_id d i" using k by (auto dest: chunk_id_inj)
    ultimately show "chunk_id d k \<notin> rec_id ` set (st @ [?r])" by auto
  qed
  from Cons.IH [OF this] add show ?case by simp
qed

lemma matching_ids_eq:
  "matching_ids rs d = map rec_id (filter (\<lambda>r. rec_metadata r (py ''doc_id'') = Some (VStr d)) rs)"
  by (induction rs) auto

lemma delete_document_removes:
  "\<forall>r \<in> set (delete_document st d). rec_metadata r (py ''doc_id'') \<noteq> Some (VStr d)"
  by (auto simp: delete_document_def collection_get_def collection_delete_def matching_ids_eq
      Let_def filter_empty_conv)

lemma delete_document_filter:
  assumes "distinct (map rec_id st)"
  shows "delete_document st d = filter (\<lambda>r. rec_metadata r (py ''doc_id'') \<noteq> Some (VStr d)) st"
proof -
  let ?m = "\<lambda>r. rec_metadata r (py ''doc_id'') = Some (VStr d)"
  have key: "rec_id r \<in> rec_id ` set (filter ?m st) \<longleftrightarrow> ?m r" if "r \<in> set st" for r
  proof
    assume "rec_id r \<in> rec_id ` set (filter ?m st)"
    then obtain r' where r': "r' \<in> set st" "?m r'" "rec_id r' = rec_id r" by auto
    with assms that have "r' = r" by (meson distinct_map inj_onD)
    with r' show "?m r" by simp
  next
    assume "?m r" with that show "rec_id r \<in> rec_id ` set (filter ?m st)" by auto
  qed
  have del: "collection_delete st (matching_ids st d) = filter (\<lambda>r. \<not> ?m r) st"
    unfolding collection_delete_def matching_ids_eq
    by (rule filter_cong) (use key in auto)
  show ?thesis
  proof (cases "matching_ids st d = []")
    case True
    then have "\<forall>r \<in> set st. \<not> ?m r" by (simp add: matching_ids_eq filter_empty_conv)
    then have "filter (\<lambda>r. \<not> ?m r) st = st" by (simp add: filter_id_conv)
    with True show ?thesis by (simp add: delete_document_def collection_get_def)
  next
    case False
    with del show ?thesis by (simp add: delete_document_def collection_get_def)
  qed
qed

lemma delete_document_unused: "unused_doc_id st d \<Longrightarrow> delete_document st d = st"
  by (simp add: delete_document_def collection_get_def matching_ids_eq unused_doc_id_def
      filter_empty_conv list_all_iff)

lemma delete_document_twice: "delete_document (delete_document st d) d = delete_document st d"
  using delete_document_removes [of st d]
  by (intro delete_document_unused) (simp add: unused_doc_id_def list_all_iff)

section \<open>Grouping records into documents\<close>

lemma group_loop_succeeds:
  "\<forall>r \<in> set rs. rec_metadata r (py ''doc_id'') \<noteq> None \<Longrightarrow> \<exists>dm'. group_loop rs dm = Inr dm'"
  by (induction rs arbitrary: dm) (auto simp: Let_def)

lemma group_loop_fails:
  "\<exists>r \<in> set rs. rec_metadata r (py ''doc_id'') = None \<Longrightarrow> group_loop rs dm = Inl KeyError"
proof (induction rs arbitrary: dm)
  case Nil
  then show ?case by simp
next
  case (Cons r rs)
  show ?case
  proof (cases "rec_metadata r (py ''doc_id'')")
    case None
    then show ?thesis by simp
  next
    case (Some b)
    with Cons.prems have "\<exists>r \<in> set rs. rec_metadata r (py ''doc_id'') = None" by auto
    from Cons.IH [OF this] Some show ?thesis by (simp add: Let_def)
  qed
qed

lemma group_loop_keys:
  "group_loop rs dm = Inr dm' \<Longrightarrow>
   fst ` set dm' = fst ` set dm \<union> {b. \<exists>r \<in> set rs. rec_metadata r (py ''doc_id'') = Some b}"
proof (induction rs arbitrary: dm)
  case Nil
  then show ?case by simp
next
  case (Cons r rs)
  from Cons.prems obtain b where b: "rec_metadata r (py ''doc_id'') = Some b"
    by (cases "rec_metadata r (py ''doc_id'')") auto
  let ?dm1 = "if map_of dm b = None then AList.update b (new_summary b r) dm else dm"
  let ?dm2 = "AList.map_entry b (\<lambda>s. s\<lparr>chunk_count := chunk_count s + 1\<rparr>) ?dm1"
  from Cons.prems b have "group_loop rs ?dm2 = Inr dm'" by (simp add: Let_def)
  from Cons.IH [OF this]
  have "fst ` set dm' = fst ` set ?dm2 \<union> {b. \<exists>r \<in> set rs. rec_metadata r (py ''doc_id'') = Some b}" .
  moreover have "fst ` set ?dm2 = insert b (fst ` set dm)"
    by (auto simp: AList.dom_map_entry AList.dom_update map_of_eq_None_iff)
  ultimately show ?case using b by auto
qed

lemma map_entry_sum_id:
  "\<forall>(k, s) \<in> set al. sum_id s = k \<Longrightarrow>
   \<forall>(k, s) \<in> set (AList.map_entry b (\<lambda>s. s\<lparr>chunk_count := chunk_count s + 1\<rparr>) al). sum_id s = k"
  by (induction al) auto

lemma update_sum_id:
  "\<forall>(k, s) \<in> set al. sum_id s = k \<Longrightarrow> sum_id v = b \<Longrightarrow>
   \<forall>(k, s) \<in> set (AList.update b v al). sum_id s = k"
  by (induction al) auto

lemma group_loop_sum_id:
  "group_loop rs dm = Inr dm' \<Longrightarrow> \<forall>(k, s) \<in> set dm. sum_id s = k \<Longrightarrow>
   \<forall>(k, s) \<in> set dm'. sum_id s = k"
proof (induction rs arbitrary: dm)
  case Nil
  then show ?case by simp
next
  case (Cons r rs)
  from Cons.prems(1) obtain b where b: "rec_metadata r (py ''doc_id'') = Some b"
    by (cases "rec_metadata r (py ''doc_id'')") auto
  let ?dm1 = "if map_of dm b = None then AList.update b (new_summary b r) dm else dm"
  let ?dm2 = "AList.map_entry b (\<lambda>s. s\<lparr>chunk_count := chunk_count s + 1\<rparr>) ?dm1"
  from Cons.prems b have run: "group_loop rs ?dm2 = Inr dm'" by (simp add: Let_def)
  have "\<forall>(k, s) \<in> set ?dm1. sum_id s = k"
    using Cons.prems(2) update_sum_id [of dm "new_summary b r" b]
    by (simp add: new_summary_def)
  then have "\<forall>(k, s) \<in> set ?dm2. sum_id s = k" by (rule map_entry_sum_id)
  from Cons.IH [OF run this] show ?case .
qed

lemma listed_ids:
  assumes "get_all_documents st = Inr docs"
  shows "sum_id ` set docs = {b. \<exists>r \<in> set st. rec_metadata r (py ''doc_id'') = Some b}"
proof -
  from assms obtain dm where dm: "group_loop st [] = Inr dm" and docs: "docs = map snd dm"
    by (auto simp: get_all_documents_def collection_get_def split: sum.splits)
  have keys: "fst ` set dm = {b. \<exists>r \<in> set st. rec_metadata r (py ''doc_id'') = Some b}"
    using group_loop_keys [OF dm] by simp
  have "\<forall>(k, s) \<in> set dm. sum_id s = k" using group_loop_sum_id [OF dm] by simp
  then have "sum_id ` snd ` set dm = fst ` set dm" by (force simp: image_iff)
  with keys docs show ?thesis by (simp add: image_image)
qed

lemma group_loop_one_document:
  "\<forall>r \<in> set rs. rec_metadata r (py ''doc_id'') = Some b \<Longrightarrow>
   group_loop rs [(b, s)] = Inr [(b, s\<lparr>chunk_count := chunk_count s + length rs\<rparr>)]"
  by (induction rs arbitrary: s) (auto simp: Let_def)

section \<open>Blank texts and records with a document\<close>

lemma py_split_chars: "p \<in> set (py_split sep s) \<Longrightarrow> set p \<subseteq> set s"
proof (induction s arbitrary: p)
  case Nil
  then show ?case by simp
next
  case (Cons c cs)
  show ?case
  proof (cases "c = sep")
    case True
    with Cons show ?thesis by auto
  next
    case False
    obtain q qs where split: "py_split sep cs = q # qs"
      by (cases "py_split sep cs") simp_all
    with Cons.prems False have "p = c # q \<or> p \<in> set qs" by simp
    then show ?thesis
    proof
      assume "p = c # q"
      moreover have "set q \<subseteq> set cs" using Cons.IH [of q] split by simp
      ultimately show ?thesis by auto
    next
      assume "p \<in> set qs"
      then have "set p \<subseteq> set cs" using Cons.IH [of p] split by simp
      then show ?thesis by auto
    qed
  qed
qed

lemma paragraphs_of_blank: "list_all py_isspace t \<Longrightarrow> paragraphs_of t = []"
proof -
  assume blank: "list_all py_isspace t"
  have "py_strip p = []" if "p \<in> set (py_split 10 t)" for p
    using py_split_chars [OF that] blank by (auto simp: py_strip_Nil_iff list_all_iff)
  then show ?thesis by (simp add: paragraphs_of_def filter_empty_conv)
qed

lemma chunk_text_blank: "list_all py_isspace t \<Longrightarrow> chunk_text t m = []"
  by (simp add: chunk_text_def paragraphs_of_blank)

lemma add_chunks_keeps_doc_id:
  "list_all (\<lambda>r. rec_metadata r (py ''doc_id'') \<noteq> None) st \<Longrightarrow>
   list_all (\<lambda>r. rec_metadata r (py ''doc_id'') \<noteq> None) (add_chunks st d md i cs)"
proof (induction cs arbitrary: st i)
  case Nil
  then show ?case by simp
next
  case (Cons c cs)
  have "list_all (\<lambda>r. rec_metadata r (py ''doc_id'') \<noteq> None)
          (collection_add st (chunk_id d i) c (chunk_metadata md d i))"
    using Cons.prems by (simp add: collection_add_def chunk_metadata_def)
  from Cons.IH [OF this] show ?case by simp
qed

lemma delete_document_subset: "set (delete_document st d) \<subseteq> set st"
  by (auto simp: delete_document_def collection_delete_def Let_def)

lemma get_all_documents_succeeds:
  "\<forall>r \<in> set st. rec_metadata r (py ''doc_id'') \<noteq> None \<Longrightarrow> \<exists>docs. get_all_documents st = Inr docs"
  using group_loop_succeeds [of st "[]"]
  by (auto simp: get_all_documents_def collection_get_def)

section \<open>Reachable stores\<close>

lemma derived_idsD:
  assumes "derived_ids st" "r \<in> set st"
  obtains d i where "rec_metadata r (py ''doc_id'') = Some (VStr d)"
    "rec_metadata r (py ''chunk_index'') = Some (VInt (int i))" "rec_id r = chunk_id d i"
proof -
  from assms have "derived_id r" by (simp add: derived_ids_def list_all_iff)
  then obtain d where d: "rec_metadata r (py ''doc_id'') = Some (VStr d)"
    unfolding derived_id_def by (auto split: option.splits pyval.splits)
  with \<open>derived_id r\<close> have "case rec_metadata r (py ''chunk_index'') of
       Some (VInt i) \<Rightarrow> 0 \<le> i \<and> rec_id r = chunk_id d (nat i) | _ \<Rightarrow> False"
    by (simp add: derived_id_def)
  then obtain i where "rec_metadata r (py ''chunk_index'') = Some (VInt i)" "0 \<le> i"
    "rec_id r = chunk_id d (nat i)"
    by (cases "rec_metadata r (py ''chunk_index'')"; cases "the (rec_metadata r (py ''chunk_index''))") auto
  with d
  show ?thesis using that [of d "nat i"] by simp
qed

lemma unused_ids_fresh:
  assumes "derived_ids st" "unused_doc_id st d"
  shows "chunk_id d k \<notin> rec_id ` set st"
proof
  assume "chunk_id d k \<in> rec_id ` set st"
  then obtain r where r: "r \<in> set st" "rec_id r = chunk_id d k" by auto
  from derived_idsD [OF assms(1) r(1)] obtain d' i where
    d': "rec_metadata r (py ''doc_id'') = Some (VStr d')" "rec_id r = chunk_id d' i" by metis
  with r have "d' = d" by (auto dest: chunk_id_inj)
  with d' r assms(2) show False by (simp add: unused_doc_id_def list_all_iff)
qed


lemma enumerate_map_index:
  "map (\<lambda>(k, c). f k) (enumerate n cs) = map f [n..<n + length cs]"
  using arg_cong [OF map_fst_enumerate [of n cs], of "map f"]
  by (simp add: case_prod_unfold comp_def del: map_fst_enumerate)

lemma new_records_ids:
  "map rec_id (map (\<lambda>(k, c). \<lparr>rec_id = chunk_id d k, rec_document = c,
       rec_metadata = chunk_metadata md d k\<rparr>) (enumerate 0 cs))
   = map (chunk_id d) [0..<length cs]"
  using enumerate_map_index [of "chunk_id d" 0 cs]
  by (simp add: case_prod_unfold comp_def)

lemma new_records_indices:
  "map (\<lambda>r. rec_metadata r (py ''chunk_index''))
     (map (\<lambda>(k, c). \<lparr>rec_id = chunk_id d k, rec_document = c,
       rec_metadata = chunk_metadata md d k\<rparr>) (enumerate 0 cs))
   = map (\<lambda>k. Some (VInt (int k))) [0..<length cs]"
  using enumerate_map_index [of "\<lambda>k. Some (VInt (int k))" 0 cs]
  by (simp add: case_prod_unfold comp_def chunk_metadata_def)

lemma new_records_doc_id:
  "r \<in> set (map (\<lambda>(k, c). \<lparr>rec_id = chunk_id d k, rec_document = c,
       rec_metadata = chunk_metadata md d k\<rparr>) (enumerate 0 cs))
   \<Longrightarrow> rec_metadata r (py ''doc_id'') = Some (VStr d)"
  by (auto simp: chunk_metadata_def)

lemma new_records_derived:
  "r \<in> set (map (\<lambda>(k, c). \<lparr>rec_id = chunk_id d k, rec_document = c,
       rec_metadata = chunk_metadata md d k\<rparr>) (enumerate 0 cs))
   \<Longrightarrow> derived_id r"
  by (auto simp: chunk_metadata_def derived_id_def)

lemma add_document_unused:
  assumes "derived_ids st" "unused_doc_id st d"
  shows "snd (add_document st d t md) =
     st @ map (\<lambda>(k, c). \<lparr>rec_id = chunk_id d k, rec_document = c,
                         rec_metadata = chunk_metadata (caller_metadata md) d k\<rparr>)
            (enumerate 0 (chunk_text t default_max_chunk_size))"
  using unused_ids_fresh [OF assms]
  by (simp add: add_document_def Let_def add_chunks_fresh)

lemma indices_of_append: "indices_of (st @ st') d = indices_of st d @ indices_of st' d"
  by (simp add: indices_of_def)

lemma indices_of_unused: "unused_doc_id st d \<Longrightarrow> indices_of st d = []"
  by (simp add: indices_of_def unused_doc_id_def list_all_iff filter_empty_conv)

lemma inj_on_chunk_id: "inj_on (chunk_id d) A"
  by (auto simp: inj_on_def dest: chunk_id_inj)

lemma reachable_invariant:
  "reachable st \<Longrightarrow>
   derived_ids st \<and>
   (\<forall>d. indices_of st d = map (\<lambda>k. Some (VInt (int k))) [0..<length (indices_of st d)])"
proof (induction rule: reachable.induct)
  case reachable_empty
  show ?case by (simp add: derived_ids_def indices_of_def)
next
  case (reachable_add st d t md)
  let ?cs = "chunk_text t default_max_chunk_size"
  let ?new = "map (\<lambda>(k, c). \<lparr>rec_id = chunk_id d k, rec_document = c,
                         rec_metadata = chunk_metadata (caller_metadata md) d k\<rparr>) (enumerate 0 ?cs)"
  from reachable_add have inv: "derived_ids st" and unused: "unused_doc_id st d" by simp_all
  have st': "snd (add_document st d t md) = st @ ?new"
    by (rule add_document_unused [OF inv unused])
  have ids: "map rec_id ?new = map (chunk_id d) [0..<length ?cs]" by (rule new_records_ids)
  have "distinct (map rec_id ?new)"
    unfolding ids by (simp add: distinct_map inj_on_chunk_id)
  moreover have "set (map rec_id st) \<inter> set (map rec_id ?new) = {}"
    unfolding ids using unused_ids_fresh [OF inv unused] by force
  ultimately have dist: "distinct (map rec_id (st @ ?new))"
    using inv by (simp add: derived_ids_def)
  have derived: "derived_ids (st @ ?new)"
    unfolding derived_ids_def
  proof
    show "distinct (map rec_id (st @ ?new))" by (rule dist)
    have "\<forall>r \<in> set ?new. derived_id r"
      using new_records_derived [of _ d "caller_metadata md" ?cs] by blast
    with inv show "list_all derived_id (st @ ?new)"
      by (auto simp: derived_ids_def list_all_iff)
  qed
  have idx: "indices_of (st @ ?new) d' = map (\<lambda>k. Some (VInt (int k))) [0..<length (indices_of (st @ ?new) d')]" for d'
  proof (cases "d' = d")
    case True
    have "filter (\<lambda>r. rec_metadata r (py ''doc_id'') = Some (VStr d)) ?new = ?new"
      using new_records_doc_id [of _ d "caller_metadata md" ?cs] by (simp add: filter_id_conv)
    then have "indices_of ?new d = map (\<lambda>k. Some (VInt (int k))) [0..<length ?cs]"
      using new_records_indices [of d "caller_metadata md" ?cs] by (simp add: indices_of_def)
    with True show ?thesis
      by (simp add: indices_of_append indices_of_unused [OF unused])
  next
    case False
    have "filter (\<lambda>r. rec_metadata r (py ''doc_id'') = Some (VStr d')) ?new = []"
      using new_records_doc_id [of _ d "caller_metadata md" ?cs] False
      by (auto simp: filter_empty_conv)
    then have "indices_of ?new d' = []" by (simp add: indices_of_def)
    with reachable_add.IH show ?thesis by (simp add: indices_of_append)
  qed
  from derived idx show ?case unfolding st' by blast
next
  case (reachable_delete st d)
  then have inv: "derived_ids st" by simp
  then have dist: "distinct (map rec_id st)" by (simp add: derived_ids_def)
  let ?keep = "\<lambda>r. rec_metadata r (py ''doc_id'') \<noteq> Some (VStr d)"
  have st': "delete_document st d = filter ?keep st" by (rule delete_document_filter [OF dist])
  have derived: "derived_ids (filter ?keep st)"
    using inv by (simp add: derived_ids_def distinct_map_filter list_all_iff)
  have idx: "indices_of (filter ?keep st) d' =
       map (\<lambda>k. Some (VInt (int k))) [0..<length (indices_of (filter ?keep st) d')]" for d'
  proof (cases "d' = d")
    case True
    then have "indices_of (filter ?keep st) d' = []"
      by (simp add: indices_of_def filter_empty_conv)
    then show ?thesis by simp
  next
    case False
    have "filter (\<lambda>r. rec_metadata r (py ''doc_id'') = Some (VStr d')) (filter ?keep st)
        = filter (\<lambda>r. rec_metadata r (py ''doc_id'') = Some (VStr d')) st"
      using False by (auto intro: filter_cong)
    then have "indices_of (filter ?keep st) d' = indices_of st d'" by (simp add: indices_of_def)
    with reachable_delete.IH show ?thesis by simp
  qed
  from derived idx show ?case unfolding st' by blast
qed

section \<open>The document store's operations\<close>

text \<open>
  C4. \<open>add_document\<close> returns the generated identifier whatever the number of
  chunks, writes nothing when the chunker gives no chunk, and, the identifiers derived
  from the generated one being new to the collection, appends for the chunk at each
  position \<open>i\<close> a record whose identifier is the document's, an underscore and
  \<open>i\<close>, and whose metadata is the caller's with \<open>doc_id\<close> and \<open>chunk_index\<close>
  set, a caller's value under these keys being overwritten.
\<close>

theorem add_document_persists_chunks:
  "fst (add_document st doc_id text metadata) = doc_id
   \<and> (chunk_text text default_max_chunk_size = [] \<longrightarrow>
        snd (add_document st doc_id text metadata) = st)
   \<and> ((\<forall>i < length (chunk_text text default_max_chunk_size). chunk_id doc_id i \<notin> rec_id ` set st) \<longrightarrow>
        snd (add_document st doc_id text metadata) =
          st @ map (\<lambda>(i, chunk).
                 \<lparr>rec_id = doc_id @ py ''_'' @ str_nat i,
                  rec_document = chunk,
                  rec_metadata = (case metadata of None \<Rightarrow> Map.empty | Some m \<Rightarrow> m)
                    (py ''doc_id'' \<mapsto> VStr doc_id, py ''chunk_index'' \<mapsto> VInt (int i))\<rparr>)
               (enumerate 0 (chunk_text text default_max_chunk_size)))"
proof (intro conjI impI)
  show "fst (add_document st doc_id text metadata) = doc_id"
    by (simp add: add_document_def Let_def)
next
  assume "chunk_text text default_max_chunk_size = []"
  then show "snd (add_document st doc_id text metadata) = st"
    by (simp add: add_document_def Let_def)
next
  let ?cs = "chunk_text text default_max_chunk_size"
  assume "\<forall>i < length ?cs. chunk_id doc_id i \<notin> rec_id ` set st"
  then have "\<forall>k. 0 \<le> k \<and> k < 0 + length ?cs \<longrightarrow> chunk_id doc_id k \<notin> rec_id ` set st"
    by simp
  from add_chunks_fresh [OF this, of "caller_metadata metadata"]
  show "snd (add_document st doc_id text metadata) =
          st @ map (\<lambda>(i, chunk).
                 \<lparr>rec_id = doc_id @ py ''_'' @ str_nat i,
                  rec_document = chunk,
                  rec_metadata = (case metadata of None \<Rightarrow> Map.empty | Some m \<Rightarrow> m)
                    (py ''doc_id'' \<mapsto> VStr doc_id, py ''chunk_index'' \<mapsto> VInt (int i))\<rparr>)
               (enumerate 0 ?cs)"
    by (simp add: add_document_def Let_def chunk_id_def chunk_metadata_def caller_metadata_def)
qed

text \<open>
  An instance: a document of one chunk added to a store of one record. The caller's
  metadata holds a title, which is kept, and a \<open>doc_id\<close> of its own, which is
  overwritten.
\<close>

theorem add_document_persists_chunks_witness:
  "chunk_id (py ''d1'') 0 \<notin> rec_id ` set [\<lparr>rec_id = py ''d0_0'', rec_document = py ''Old'',
        rec_metadata = [py ''doc_id'' \<mapsto> VStr (py ''d0''), py ''chunk_index'' \<mapsto> VInt 0]\<rparr>]
   \<and> add_document
       [\<lparr>rec_id = py ''d0_0'', rec_document = py ''Old'',
        rec_metadata = [py ''doc_id'' \<mapsto> VStr (py ''d0''), py ''chunk_index'' \<mapsto> VInt 0]\<rparr>]
       (py ''d1'') (py ''Hello'')
       (Some [py ''title'' \<mapsto> VStr (py ''X''), py ''doc_id'' \<mapsto> VStr (py ''mine'')])
     = (py ''d1'',
        [\<lparr>rec_id = py ''d0_0'', rec_document = py ''Old'',
          rec_metadata = [py ''doc_id'' \<mapsto> VStr (py ''d0''), py ''chunk_index'' \<mapsto> VInt 0]\<rparr>,
         \<lparr>rec_id = py ''d1_0'', rec_document = py ''Hello'',
          rec_metadata = [py ''title'' \<mapsto> VStr (py ''X''), py ''doc_id'' \<mapsto> VStr (py ''d1''),
                          py ''chunk_index'' \<mapsto> VInt 0]\<rparr>])
   \<and> rec_metadata (last (snd (add_document
       [\<lparr>rec_id = py ''d0_0'', rec_document = py ''Old'',
        rec_metadata = [py ''doc_id'' \<mapsto> VStr (py ''d0''), py ''chunk_index'' \<mapsto> VInt 0]\<rparr>]
       (py ''d1'') (py ''Hello'')
       (Some [py ''title'' \<mapsto> VStr (py ''X''), py ''doc_id'' \<mapsto> VStr (py ''mine'')]))))
       (py ''title'') = Some (VStr (py ''X''))"
proof -
  let ?st = "[\<lparr>rec_id = py ''d0_0'', rec_document = py ''Old'',
        rec_metadata = [py ''doc_id'' \<mapsto> VStr (py ''d0''), py ''chunk_index'' \<mapsto> VInt 0]\<rparr>]"
  let ?md = "Some [py ''title'' \<mapsto> VStr (py ''X''), py ''doc_id'' \<mapsto> VStr (py ''mine'')]"
  have chunks: "chunk_text (py ''Hello'') default_max_chunk_size = [py ''Hello'']"
    by (simp add: chunk_text_def paragraphs_of_def py_strip_def py_isspace_def
        default_max_chunk_size_def)
  have fresh: "chunk_id (py ''d1'') 0 \<notin> rec_id ` set ?st"
    by (simp add: chunk_id_def str_nat.simps [of 0])
  have run: "add_document ?st (py ''d1'') (py ''Hello'') ?md
     = (py ''d1'',
        [\<lparr>rec_id = py ''d0_0'', rec_document = py ''Old'',
          rec_metadata = [py ''doc_id'' \<mapsto> VStr (py ''d0''), py ''chunk_index'' \<mapsto> VInt 0]\<rparr>,
         \<lparr>rec_id = py ''d1_0'', rec_document = py ''Hello'',
          rec_metadata = [py ''title'' \<mapsto> VStr (py ''X''), py ''doc_id'' \<mapsto> VStr (py ''d1''),
                          py ''chunk_index'' \<mapsto> VInt 0]\<rparr>])"
    using add_document_persists_chunks [of ?st "py ''d1''" "py ''Hello''" ?md] fresh
    by (simp add: chunks [simplified] prod_eq_iff str_nat.simps [of 0] chunk_id_def)
  have "rec_metadata (last (snd (add_document ?st (py ''d1'') (py ''Hello'') ?md)))
          (py ''title'') = Some (VStr (py ''X''))"
    unfolding run by simp
  with fresh run show ?thesis by (intro conjI)
qed

text \<open>
  C5. In every store reached from the empty one by \<open>add_document\<close>, each with a
  generated identifier no record carries, and \<open>delete_document\<close>, the chunk indices
  of the records of any document are the numbers from 0 up to their count, each once.
\<close>

theorem chunk_index_contiguous:
  assumes "reachable st"
  shows "distinct (indices_of st doc_id)
       \<and> set (indices_of st doc_id)
           = (\<lambda>i. Some (VInt (int i))) ` {0..<length (indices_of st doc_id)}"
proof -
  let ?n = "length (indices_of st doc_id)"
  have eq: "indices_of st doc_id = map (\<lambda>k. Some (VInt (int k))) [0..<?n]"
    using reachable_invariant [OF assms] by blast
  have "distinct (map (\<lambda>k. Some (VInt (int k))) [0..<?n])"
    by (simp add: distinct_map inj_on_def)
  moreover have "set (map (\<lambda>k. Some (VInt (int k))) [0..<?n]) = (\<lambda>i. Some (VInt (int i))) ` {0..<?n}"
    by simp
  ultimately show ?thesis using eq by metis
qed

text \<open>An instance: two documents added, the first deleted again.\<close>

theorem chunk_index_contiguous_witness:
  "reachable (delete_document
      (snd (add_document (snd (add_document [] (py ''d1'') (py ''One'') None))
         (py ''d2'') (py ''Two'') None)) (py ''d1''))
   \<and> indices_of (delete_document
      (snd (add_document (snd (add_document [] (py ''d1'') (py ''One'') None))
         (py ''d2'') (py ''Two'') None)) (py ''d1'')) (py ''d2'') = [Some (VInt 0)]
   \<and> distinct (indices_of (delete_document
      (snd (add_document (snd (add_document [] (py ''d1'') (py ''One'') None))
         (py ''d2'') (py ''Two'') None)) (py ''d1'')) (py ''d2''))"
proof -
  let ?s1 = "snd (add_document [] (py ''d1'') (py ''One'') None)"
  let ?s2 = "snd (add_document ?s1 (py ''d2'') (py ''Two'') None)"
  have c1: "chunk_text (py ''One'') default_max_chunk_size = [py ''One'']"
    by (simp add: chunk_text_def paragraphs_of_def py_strip_def py_isspace_def
        default_max_chunk_size_def)
  have c2: "chunk_text (py ''Two'') default_max_chunk_size = [py ''Two'']"
    by (simp add: chunk_text_def paragraphs_of_def py_strip_def py_isspace_def
        default_max_chunk_size_def)
  have s1: "?s1 = [\<lparr>rec_id = py ''d1_0'', rec_document = py ''One'',
          rec_metadata = [py ''doc_id'' \<mapsto> VStr (py ''d1''), py ''chunk_index'' \<mapsto> VInt 0]\<rparr>]"
    by (simp add: add_document_def c1 [simplified] collection_add_def chunk_id_def
        chunk_metadata_def caller_metadata_def str_nat.simps [of 0])
  have s2: "?s2 = [\<lparr>rec_id = py ''d1_0'', rec_document = py ''One'',
          rec_metadata = [py ''doc_id'' \<mapsto> VStr (py ''d1''), py ''chunk_index'' \<mapsto> VInt 0]\<rparr>,
        \<lparr>rec_id = py ''d2_0'', rec_document = py ''Two'',
          rec_metadata = [py ''doc_id'' \<mapsto> VStr (py ''d2''), py ''chunk_index'' \<mapsto> VInt 0]\<rparr>]"
    unfolding s1
    by (simp add: add_document_def c2 [simplified] collection_add_def chunk_id_def
        chunk_metadata_def caller_metadata_def str_nat.simps [of 0])
  have r1: "reachable ?s1"
    by (rule reachable_add [OF reachable_empty]) (simp add: unused_doc_id_def)
  have "unused_doc_id ?s1 (py ''d2'')" unfolding s1 by (simp add: unused_doc_id_def)
  with r1 have "reachable ?s2" by (rule reachable_add)
  then have r3: "reachable (delete_document ?s2 (py ''d1''))" by (rule reachable_delete)
  have idx: "indices_of (delete_document ?s2 (py ''d1'')) (py ''d2'') = [Some (VInt 0)]"
    unfolding s2
    by (simp add: delete_document_def collection_get_def collection_delete_def indices_of_def)
  have "distinct (indices_of (delete_document ?s2 (py ''d1'')) (py ''d2''))"
    by (rule conjunct1 [OF chunk_index_contiguous [OF r3]])
  with r3 idx show ?thesis by (intro conjI)
qed

text \<open>
  C6. For a text with at least one chunk and caller metadata without the reserved keys,
  \<open>add_document\<close> on the empty store followed by \<open>get_all_documents\<close> gives
  exactly one summary: its chunk count is the number of chunks of the text, its metadata
  the caller's, and its sample text the first 100 characters of the first chunk followed
  by three dots.
\<close>

theorem add_then_list_documents:
  assumes "chunk_text text default_max_chunk_size \<noteq> []"
    and "caller_metadata metadata (py ''doc_id'') = None"
    and "caller_metadata metadata (py ''chunk_index'') = None"
  shows "get_all_documents (snd (add_document [] doc_id text metadata)) =
     Inr [\<lparr>sum_id = VStr doc_id,
           sum_metadata = caller_metadata metadata,
           chunk_count = length (chunk_text text default_max_chunk_size),
           sample_text = take 100 (hd (chunk_text text default_max_chunk_size)) @ py ''...''\<rparr>]"
proof -
  let ?md = "caller_metadata metadata"
  from assms(1) obtain c cs where cs: "chunk_text text default_max_chunk_size = c # cs"
    by (cases "chunk_text text default_max_chunk_size") auto
  let ?mk = "\<lambda>(k, c). \<lparr>rec_id = chunk_id doc_id k, rec_document = c,
                         rec_metadata = chunk_metadata ?md doc_id k\<rparr>"
  have st: "snd (add_document [] doc_id text metadata) = ?mk (0, c) # map ?mk (enumerate 1 cs)"
    using add_chunks_fresh [of 0 "c # cs" doc_id "[]" ?md]
    by (simp add: add_document_def Let_def cs)
  let ?r = "?mk (0, c)"
  let ?s = "new_summary (VStr doc_id) ?r\<lparr>chunk_count := 1\<rparr>"
  have rest: "\<forall>r \<in> set (map ?mk (enumerate 1 cs)). rec_metadata r (py ''doc_id'') = Some (VStr doc_id)"
    by (auto simp: chunk_metadata_def)
  have "group_loop (?r # map ?mk (enumerate 1 cs)) [] =
          group_loop (map ?mk (enumerate 1 cs)) [(VStr doc_id, ?s)]"
    by (simp add: chunk_metadata_def new_summary_def)
  also have "\<dots> = Inr [(VStr doc_id, ?s\<lparr>chunk_count := chunk_count ?s + length (map ?mk (enumerate 1 cs))\<rparr>)]"
    by (rule group_loop_one_document [OF rest])
  finally have "get_all_documents (snd (add_document [] doc_id text metadata)) =
      Inr [?s\<lparr>chunk_count := chunk_count ?s + length (map ?mk (enumerate 1 cs))\<rparr>]"
    by (simp add: get_all_documents_def collection_get_def st)
  moreover have "?s\<lparr>chunk_count := chunk_count ?s + length (map ?mk (enumerate 1 cs))\<rparr>
     = \<lparr>sum_id = VStr doc_id, sum_metadata = ?md, chunk_count = length (c # cs),
        sample_text = take 100 c @ py ''...''\<rparr>"
    using assms(2,3) by (auto simp: new_summary_def chunk_metadata_def fun_eq_iff)
  ultimately show ?thesis by (simp add: cs)
qed

text \<open>An instance: the metadata of a title, and a text of one chunk.\<close>

theorem add_then_list_documents_witness:
  "chunk_text (py ''Hello'') default_max_chunk_size \<noteq> []
   \<and> caller_metadata (Some [py ''title'' \<mapsto> VStr (py ''X'')]) (py ''doc_id'') = None
   \<and> caller_metadata (Some [py ''title'' \<mapsto> VStr (py ''X'')]) (py ''chunk_index'') = None
   \<and> get_all_documents (snd (add_document [] (py ''d1'') (py ''Hello'')
         (Some [py ''title'' \<mapsto> VStr (py ''X'')]))) =
     Inr [\<lparr>sum_id = VStr (py ''d1''),
           sum_metadata = [py ''title'' \<mapsto> VStr (py ''X'')],
           chunk_count = 1,
           sample_text = py ''Hello...''\<rparr>]"
proof -
  have chunks: "chunk_text (py ''Hello'') default_max_chunk_size = [py ''Hello'']"
    by (simp add: chunk_text_def paragraphs_of_def py_strip_def py_isspace_def
        default_max_chunk_size_def)
  have h1: "chunk_text (py ''Hello'') default_max_chunk_size \<noteq> []"
    by (simp add: chunks [simplified])
  have h2: "caller_metadata (Some [py ''title'' \<mapsto> VStr (py ''X'')]) (py ''doc_id'') = None"
    by (simp add: caller_metadata_def)
  have h3: "caller_metadata (Some [py ''title'' \<mapsto> VStr (py ''X'')]) (py ''chunk_index'') = None"
    by (simp add: caller_metadata_def)
  from add_then_list_documents [OF h1 h2 h3, of "py ''d1''"] h1 h2 h3
  show ?thesis by (simp add: chunks [simplified] caller_metadata_def)
qed

text \<open>
  C7. After \<open>delete_document\<close> no record carries the identifier under \<open>doc_id\<close>;
  identifiers being unique in the collection, the other records stay as they are, in
  their order; a listing that follows does not report the document, and it succeeds
  whenever every record of the store has a \<open>doc_id\<close>.
\<close>

theorem delete_document_removes_document:
  "(\<forall>r \<in> set (delete_document st doc_id). rec_metadata r (py ''doc_id'') \<noteq> Some (VStr doc_id))
   \<and> (distinct (map rec_id st) \<longrightarrow>
        delete_document st doc_id =
          filter (\<lambda>r. rec_metadata r (py ''doc_id'') \<noteq> Some (VStr doc_id)) st)
   \<and> (\<forall>docs. get_all_documents (delete_document st doc_id) = Inr docs \<longrightarrow>
        VStr doc_id \<notin> sum_id ` set docs)
   \<and> ((\<forall>r \<in> set st. rec_metadata r (py ''doc_id'') \<noteq> None) \<longrightarrow>
        (\<exists>docs. get_all_documents (delete_document st doc_id) = Inr docs))"
proof (intro conjI impI allI)
  show "\<forall>r \<in> set (delete_document st doc_id). rec_metadata r (py ''doc_id'') \<noteq> Some (VStr doc_id)"
    by (rule delete_document_removes)
next
  assume "distinct (map rec_id st)"
  then show "delete_document st doc_id =
          filter (\<lambda>r. rec_metadata r (py ''doc_id'') \<noteq> Some (VStr doc_id)) st"
    by (rule delete_document_filter)
next
  fix docs assume "get_all_documents (delete_document st doc_id) = Inr docs"
  from listed_ids [OF this] delete_document_removes [of st doc_id]
  show "VStr doc_id \<notin> sum_id ` set docs" by auto
next
  assume "\<forall>r \<in> set st. rec_metadata r (py ''doc_id'') \<noteq> None"
  with delete_document_subset [of st doc_id]
  have "\<forall>r \<in> set (delete_document st doc_id). rec_metadata r (py ''doc_id'') \<noteq> None" by blast
  then show "\<exists>docs. get_all_documents (delete_document st doc_id) = Inr docs"
    by (rule get_all_documents_succeeds)
qed

text \<open>
  An instance: a store of two documents with unique identifiers; deleting the first
  leaves the record of the second.
\<close>

theorem delete_document_removes_document_witness:
  "distinct (map rec_id
     [\<lparr>rec_id = py ''a_0'', rec_document = py ''One'',
       rec_metadata = [py ''doc_id'' \<mapsto> VStr (py ''a''), py ''chunk_index'' \<mapsto> VInt 0]\<rparr>,
      \<lparr>rec_id = py ''b_0'', rec_document = py ''Two'',
       rec_metadata = [py ''doc_id'' \<mapsto> VStr (py ''b''), py ''chunk_index'' \<mapsto> VInt 0]\<rparr>,
      \<lparr>rec_id = py ''a_1'', rec_document = py ''Three'',
       rec_metadata = [py ''doc_id'' \<mapsto> VStr (py ''a''), py ''chunk_index'' \<mapsto> VInt 1]\<rparr>])
   \<and> delete_document
     [\<lparr>rec_id = py ''a_0'', rec_document = py ''One'',
       rec_metadata = [py ''doc_id'' \<mapsto> VStr (py ''a''), py ''chunk_index'' \<mapsto> VInt 0]\<rparr>,
      \<lparr>rec_id = py ''b_0'', rec_document = py ''Two'',
       rec_metadata = [py ''doc_id'' \<mapsto> VStr (py ''b''), py ''chunk_index'' \<mapsto> VInt 0]\<rparr>,
      \<lparr>rec_id = py ''a_1'', rec_document = py ''Three'',
       rec_metadata = [py ''doc_id'' \<mapsto> VStr (py ''a''), py ''chunk_index'' \<mapsto> VInt 1]\<rparr>]
     (py ''a'')
     = [\<lparr>rec_id = py ''b_0'', rec_document = py ''Two'',
       rec_metadata = [py ''doc_id'' \<mapsto> VStr (py ''b''), py ''chunk_index'' \<mapsto> VInt 0]\<rparr>]
   \<and> (\<exists>docs. get_all_documents (delete_document
     [\<lparr>rec_id = py ''a_0'', rec_document = py ''One'',
       rec_metadata = [py ''doc_id'' \<mapsto> VStr (py ''a''), py ''chunk_index'' \<mapsto> VInt 0]\<rparr>,
      \<lparr>rec_id = py ''b_0'', rec_document = py ''Two'',
       rec_metadata = [py ''doc_id'' \<mapsto> VStr (py ''b''), py ''chunk_index'' \<mapsto> VInt 0]\<rparr>,
      \<lparr>rec_id = py ''a_1'', rec_document = py ''Three'',
       rec_metadata = [py ''doc_id'' \<mapsto> VStr (py ''a''), py ''chunk_index'' \<mapsto> VInt 1]\<rparr>]
     (py ''a'')) = Inr docs \<and> VStr (py ''a'') \<notin> sum_id ` set docs)"
proof -
  let ?st = "[\<lparr>rec_id = py ''a_0'', rec_document = py ''One'',
       rec_metadata = [py ''doc_id'' \<mapsto> VStr (py ''a''), py ''chunk_index'' \<mapsto> VInt 0]\<rparr>,
      \<lparr>rec_id = py ''b_0'', rec_document = py ''Two'',
       rec_metadata = [py ''doc_id'' \<mapsto> VStr (py ''b''), py ''chunk_index'' \<mapsto> VInt 0]\<rparr>,
      \<lparr>rec_id = py ''a_1'', rec_document = py ''Three'',
       rec_metadata = [py ''doc_id'' \<mapsto> VStr (py ''a''), py ''chunk_index'' \<mapsto> VInt 1]\<rparr>]"
  note inst = delete_document_removes_document [of ?st "py ''a''"]
  have d: "distinct (map rec_id ?st)" by simp
  have keys: "\<forall>r \<in> set ?st. rec_metadata r (py ''doc_id'') \<noteq> None" by simp
  have "delete_document ?st (py ''a'') =
          filter (\<lambda>r. rec_metadata r (py ''doc_id'') \<noteq> Some (VStr (py ''a''))) ?st"
    using inst d by blast
  then have del: "delete_document ?st (py ''a'') = [\<lparr>rec_id = py ''b_0'', rec_document = py ''Two'',
       rec_metadata = [py ''doc_id'' \<mapsto> VStr (py ''b''), py ''chunk_index'' \<mapsto> VInt 0]\<rparr>]"
    by simp
  have "\<exists>docs. get_all_documents (delete_document ?st (py ''a'')) = Inr docs
          \<and> VStr (py ''a'') \<notin> sum_id ` set docs"
    using inst keys by blast
  with d del show ?thesis by (intro conjI)
qed

text \<open>
  C8. \<open>delete_document\<close> has no failing branch. On an identifier that no record
  carries it leaves the store as it is, and deleting twice gives the store that deleting
  once gives.
\<close>

theorem delete_document_idempotent:
  "(unused_doc_id st doc_id \<longrightarrow> delete_document st doc_id = st)
   \<and> delete_document (delete_document st doc_id) doc_id = delete_document st doc_id"
  using delete_document_unused [of st doc_id] delete_document_twice [of st doc_id] by blast

text \<open>An instance: deleting an identifier unknown to a store of one record.\<close>

theorem delete_document_idempotent_witness:
  "unused_doc_id
     [\<lparr>rec_id = py ''b_0'', rec_document = py ''Two'',
       rec_metadata = [py ''doc_id'' \<mapsto> VStr (py ''b''), py ''chunk_index'' \<mapsto> VInt 0]\<rparr>]
     (py ''a'')
   \<and> delete_document
     [\<lparr>rec_id = py ''b_0'', rec_document = py ''Two'',
       rec_metadata = [py ''doc_id'' \<mapsto> VStr (py ''b''), py ''chunk_index'' \<mapsto> VInt 0]\<rparr>]
     (py ''a'')
     = [\<lparr>rec_id = py ''b_0'', rec_document = py ''Two'',
       rec_metadata = [py ''doc_id'' \<mapsto> VStr (py ''b''), py ''chunk_index'' \<mapsto> VInt 0]\<rparr>]"
proof -
  let ?st = "[\<lparr>rec_id = py ''b_0'', rec_document = py ''Two'',
       rec_metadata = [py ''doc_id'' \<mapsto> VStr (py ''b''), py ''chunk_index'' \<mapsto> VInt 0]\<rparr>]"
  have u: "unused_doc_id ?st (py ''a'')" by (simp add: unused_doc_id_def)
  have "delete_document ?st (py ''a'') = ?st"
    using delete_document_idempotent [of ?st "py ''a''"] u by blast
  with u show ?thesis by (intro conjI)
qed

text \<open>
  C9. The claim is that \<open>add_document\<close> with empty text fails with a validation
  error and returns no identifier. The method validates nothing: on the empty text it
  returns the generated identifier, with the store as it was.
\<close>

theorem add_document_empty_text_returns_id:
  "add_document [] (py ''doc-1'') (py '''') None = (py ''doc-1'', [])"
  by (simp add: add_document_def chunk_text_def paragraphs_of_def py_strip_def)

text \<open>
  C9, as the code has it: on an empty text, or one of whitespace only, \<open>add_document\<close>
  returns the generated identifier and leaves the store unchanged; \<open>query\<close> hands
  its text, whatever it is, to the engine's search and returns the search's result.
\<close>

theorem add_document_blank_text:
  "(list_all py_isspace text \<longrightarrow> add_document st doc_id text metadata = (doc_id, st))
   \<and> query collection_query st query_text n_results = collection_query st [query_text] n_results"
  by (simp add: add_document_def chunk_text_blank query_def)

text \<open>An instance: a text of spaces and a newline.\<close>

theorem add_document_blank_text_witness:
  "list_all py_isspace (py '' \<newline>  '')
   \<and> add_document [] (py ''doc-1'') (py '' \<newline>  '') None = (py ''doc-1'', [])"
proof -
  have b: "list_all py_isspace (py '' \<newline>  '')" by simp
  have "add_document [] (py ''doc-1'') (py '' \<newline>  '') None = (py ''doc-1'', [])"
    using add_document_blank_text [of "py '' \<newline>  ''" "[]" "py ''doc-1''" None] b by blast
  with b show ?thesis by (intro conjI)
qed

text \<open>
  C10. \<open>get_all_documents\<close> succeeds on every store whose records all have the key
  \<open>doc_id\<close>, and \<open>add_document\<close> keeps a store so; on a store with a record
  lacking the key it fails with \<open>KeyError\<close>. \<open>delete_document\<close>, whose lookup
  has a default, has no failing branch and, identifiers being unique, leaves every
  record without the key in the store.
\<close>

theorem get_all_documents_needs_doc_id:
  "((\<forall>r \<in> set st. rec_metadata r (py ''doc_id'') \<noteq> None) \<longrightarrow>
      (\<exists>docs. get_all_documents st = Inr docs))
   \<and> ((\<exists>r \<in> set st. rec_metadata r (py ''doc_id'') = None) \<longrightarrow>
      get_all_documents st = Inl KeyError)
   \<and> (list_all (\<lambda>r. rec_metadata r (py ''doc_id'') \<noteq> None) st \<longrightarrow>
      list_all (\<lambda>r. rec_metadata r (py ''doc_id'') \<noteq> None)
        (snd (add_document st doc_id text metadata)))
   \<and> (distinct (map rec_id st) \<longrightarrow>
      (\<forall>r \<in> set st. rec_metadata r (py ''doc_id'') = None \<longrightarrow>
         r \<in> set (delete_document st doc_id')))"
proof (intro conjI impI ballI)
  assume "\<forall>r \<in> set st. rec_metadata r (py ''doc_id'') \<noteq> None"
  then show "\<exists>docs. get_all_documents st = Inr docs" by (rule get_all_documents_succeeds)
next
  assume "\<exists>r \<in> set st. rec_metadata r (py ''doc_id'') = None"
  from group_loop_fails [OF this, of "[]"] show "get_all_documents st = Inl KeyError"
    by (simp add: get_all_documents_def collection_get_def)
next
  assume "list_all (\<lambda>r. rec_metadata r (py ''doc_id'') \<noteq> None) st"
  then show "list_all (\<lambda>r. rec_metadata r (py ''doc_id'') \<noteq> None)
        (snd (add_document st doc_id text metadata))"
    unfolding add_document_def Let_def snd_conv by (rule add_chunks_keeps_doc_id)
next
  fix r
  assume "distinct (map rec_id st)" "r \<in> set st" "rec_metadata r (py ''doc_id'') = None"
  then show "r \<in> set (delete_document st doc_id')"
    by (simp add: delete_document_filter)
qed

text \<open>
  An instance: a store with a record that has no \<open>doc_id\<close>; listing fails, deleting
  another document keeps the record, and listing the store without it succeeds.
\<close>

theorem get_all_documents_needs_doc_id_witness:
  "get_all_documents
     [\<lparr>rec_id = py ''b_0'', rec_document = py ''Two'',
       rec_metadata = [py ''doc_id'' \<mapsto> VStr (py ''b''), py ''chunk_index'' \<mapsto> VInt 0]\<rparr>,
      \<lparr>rec_id = py ''x'', rec_document = py ''Loose'',
       rec_metadata = [py ''title'' \<mapsto> VStr (py ''T'')]\<rparr>] = Inl KeyError
   \<and> \<lparr>rec_id = py ''x'', rec_document = py ''Loose'',
       rec_metadata = [py ''title'' \<mapsto> VStr (py ''T'')]\<rparr>
     \<in> set (delete_document
     [\<lparr>rec_id = py ''b_0'', rec_document = py ''Two'',
       rec_metadata = [py ''doc_id'' \<mapsto> VStr (py ''b''), py ''chunk_index'' \<mapsto> VInt 0]\<rparr>,
      \<lparr>rec_id = py ''x'', rec_document = py ''Loose'',
       rec_metadata = [py ''title'' \<mapsto> VStr (py ''T'')]\<rparr>] (py ''b''))
   \<and> (\<exists>docs. get_all_documents
     [\<lparr>rec_id = py ''b_0'', rec_document = py ''Two'',
       rec_metadata = [py ''doc_id'' \<mapsto> VStr (py ''b''), py ''chunk_index'' \<mapsto> VInt 0]\<rparr>] = Inr docs)"
proof -
  let ?b = "\<lparr>rec_id = py ''b_0'', rec_document = py ''Two'',
       rec_metadata = [py ''doc_id'' \<mapsto> VStr (py ''b''), py ''chunk_index'' \<mapsto> VInt 0]\<rparr>"
  let ?x = "\<lparr>rec_id = py ''x'', rec_document = py ''Loose'',
       rec_metadata = [py ''title'' \<mapsto> VStr (py ''T'')]\<rparr>"
  have lacks: "\<exists>r \<in> set [?b, ?x]. rec_metadata r (py ''doc_id'') = None" by simp
  have dist: "distinct (map rec_id [?b, ?x])" by simp
  have mem: "?x \<in> set [?b, ?x]" "rec_metadata ?x (py ''doc_id'') = None" by simp_all
  have has: "\<forall>r \<in> set [?b]. rec_metadata r (py ''doc_id'') \<noteq> None" by simp
  have 1: "get_all_documents [?b, ?x] = Inl KeyError"
    using get_all_documents_needs_doc_id [of "[?b, ?x]"] lacks by blast
  have 2: "?x \<in> set (delete_document [?b, ?x] (py ''b''))"
    using get_all_documents_needs_doc_id [of "[?b, ?x]" _ _ _ "py ''b''"] dist mem by blast
  have 3: "\<exists>docs. get_all_documents [?b] = Inr docs"
    using get_all_documents_needs_doc_id [of "[?b]"] has by blast
  from 1 2 3 show ?thesis by (intro conjI)
qed

end
